theory Spec2Isabelle
  imports Complex_Main "HOL-Library.Multiset"
begin

section \<open>The heredity inference engine\<close>

text \<open>
  A shallow embedding of \<^verbatim>\<open>heredity.py\<close>. Probabilities are Python floats in the
  source; the model computes with exact reals, so every statement below is about exact
  arithmetic. Python exceptions are values of a sum type.
\<close>

subsection \<open>Data\<close>

type_synonym name = string

datatype error = KeyError | ZeroDivisionError

text \<open>
  One row of the population dictionary built by \<^verbatim>\<open>load_data\<close>. The row's own
  \<^verbatim>\<open>"name"\<close> field repeats the dictionary key and is never read by the engine, so it
  is left out. \<^verbatim>\<open>None\<close> is \<open>None\<close>.
\<close>

record person =
  mother :: "name option"
  father :: "name option"
  trait :: "bool option"

text \<open>
  A Python dictionary is an association list in insertion order; the keys of a dictionary
  are pairwise different.
\<close>

type_synonym people = "(name \<times> person) list"

text \<open>
  The accumulator of one person:
  \<^verbatim>\<open>{"gene": {2: 0, 1: 0, 0: 0}, "trait": {True: 0, False: 0}}\<close>.
  Both inner dictionaries have a fixed key set, so each key is a field.
\<close>

record dist =
  gene2 :: real
  gene1 :: real
  gene0 :: real
  traitT :: real
  traitF :: real

type_synonym probabilities = "(name \<times> dist) list"

subsection \<open>The probability tables\<close>

text \<open>
  \<^verbatim>\<open>PROBS["mutation"]\<close>, \<^verbatim>\<open>PROBS["gene"]\<close> and \<^verbatim>\<open>PROBS["trait"]\<close>. The tables are
  only ever read at gene counts 0, 1 and 2.
\<close>

definition MUTATION :: real where
  "MUTATION = 0.01"

definition PROBS_gene :: "nat \<Rightarrow> real" where
  "PROBS_gene g = (if g = 2 then 0.01 else if g = 1 then 0.03 else 0.96)"

definition PROBS_trait :: "nat \<Rightarrow> bool \<Rightarrow> real" where
  "PROBS_trait g t =
     (if g = 2 then (if t then 0.65 else 0.35)
      else if g = 1 then (if t then 0.56 else 0.44)
      else (if t then 0.01 else 0.99))"

subsection \<open>\<^verbatim>\<open>powerset\<close>\<close>

text \<open>
  \<^verbatim>\<open>itertools.combinations(s, r)\<close>: the sublists of length \<open>r\<close>, in lexicographic order
  of positions.
\<close>

fun combinations :: "'a list \<Rightarrow> nat \<Rightarrow> 'a list list" where
  "combinations xs 0 = [ [] ]"
| "combinations [] (Suc r) = []"
| "combinations (x # xs) (Suc r) =
     map ((#) x) (combinations xs r) @ combinations xs (Suc r)"

text \<open>
  \<^verbatim>\<open>powerset(s)\<close> turns the set \<open>s\<close> into a list and chains the combinations of every
  size \<open>0 .. len(s)\<close>. The order in which Python lists a set is not specified; the model
  receives the set already as that list.
\<close>

definition powerset :: "'a list \<Rightarrow> 'a set list" where
  "powerset s = map set (concat (map (combinations s) [0..<length s + 1]))"

subsection \<open>\<^verbatim>\<open>pass_prob\<close> and \<^verbatim>\<open>joint_probability\<close>\<close>

definition pass_prob :: "nat \<Rightarrow> real" where
  "pass_prob gene_count =
     (if gene_count = 0 then MUTATION
      else if gene_count = 1 then 0.5
      else 1 - MUTATION)"

text \<open>The first loop of \<^verbatim>\<open>joint_probability\<close>: the gene count written into
  \<^verbatim>\<open>joint_probes[key]["gene"]\<close>.\<close>

definition assigned_gene :: "name set \<Rightarrow> name set \<Rightarrow> name \<Rightarrow> nat" where
  "assigned_gene one_gene two_genes key =
     (if key \<in> one_gene then 1 else if key \<in> two_genes then 2 else 0)"

text \<open>
  \<^verbatim>\<open>joint_probes[parent]["gene"]\<close>: the dictionary has exactly the keys of \<^verbatim>\<open>people\<close>,
  so the lookup raises \<^verbatim>\<open>KeyError\<close> for \<^verbatim>\<open>None\<close> and for a name that is no key.
\<close>

definition probe_gene :: "people \<Rightarrow> name set \<Rightarrow> name set \<Rightarrow> name option \<Rightarrow> error + nat" where
  "probe_gene people one_gene two_genes parent =
     (case parent of
        None \<Rightarrow> Inl KeyError
      | Some m \<Rightarrow>
          if m \<in> fst ` set people then Inr (assigned_gene one_gene two_genes m)
          else Inl KeyError)"

text \<open>The body of the second loop: the value stored in \<^verbatim>\<open>joint_probes[key]["p"]\<close>.\<close>

definition person_p ::
  "people \<Rightarrow> name set \<Rightarrow> name set \<Rightarrow> name set \<Rightarrow> name \<times> person \<Rightarrow> error + real" where
  "person_p people one_gene two_genes have_trait entry =
     (let key = fst entry;
          gene = assigned_gene one_gene two_genes key;
          tr = (key \<in> have_trait)
      in if mother (snd entry) = None \<and> father (snd entry) = None
         then Inr (PROBS_gene gene * PROBS_trait gene tr)
         else (case probe_gene people one_gene two_genes (mother (snd entry)) of
                 Inl e \<Rightarrow> Inl e
               | Inr mg \<Rightarrow>
                  (case probe_gene people one_gene two_genes (father (snd entry)) of
                     Inl e \<Rightarrow> Inl e
                   | Inr fg \<Rightarrow>
                       let mom_pass = pass_prob mg;
                           dad_pass = pass_prob fg;
                           p_gene =
                             (if gene = 0 then (1 - mom_pass) * (1 - dad_pass)
                              else if gene = 1
                                then mom_pass * (1 - dad_pass) + (1 - mom_pass) * dad_pass
                              else mom_pass * dad_pass)
                       in Inr (p_gene * PROBS_trait gene tr))))"

text \<open>The second loop, with \<^verbatim>\<open>joint_prob\<close> as accumulator; an exception ends it.\<close>

fun joint_loop ::
  "people \<Rightarrow> name set \<Rightarrow> name set \<Rightarrow> name set \<Rightarrow> (name \<times> person) list \<Rightarrow> real \<Rightarrow> error + real"
  where
  "joint_loop people one_gene two_genes have_trait [] joint_prob = Inr joint_prob"
| "joint_loop people one_gene two_genes have_trait (entry # rest) joint_prob =
     (case person_p people one_gene two_genes have_trait entry of
        Inl e \<Rightarrow> Inl e
      | Inr p \<Rightarrow> joint_loop people one_gene two_genes have_trait rest (joint_prob * p))"

definition joint_probability ::
  "people \<Rightarrow> name set \<Rightarrow> name set \<Rightarrow> name set \<Rightarrow> error + real" where
  "joint_probability people one_gene two_genes have_trait =
     joint_loop people one_gene two_genes have_trait people 1"

subsection \<open>\<^verbatim>\<open>update\<close>\<close>

definition update_gene :: "name set \<Rightarrow> name set \<Rightarrow> real \<Rightarrow> name \<Rightarrow> dist \<Rightarrow> dist" where
  "update_gene one_gene two_genes p key d =
     (if key \<in> one_gene then d\<lparr>gene1 := gene1 d + p\<rparr>
      else if key \<in> two_genes then d\<lparr>gene2 := gene2 d + p\<rparr>
      else d\<lparr>gene0 := gene0 d + p\<rparr>)"

definition update_trait :: "name set \<Rightarrow> real \<Rightarrow> name \<Rightarrow> dist \<Rightarrow> dist" where
  "update_trait have_trait p key d =
     (if key \<in> have_trait then d\<lparr>traitT := traitT d + p\<rparr>
      else d\<lparr>traitF := traitF d + p\<rparr>)"

definition update ::
  "probabilities \<Rightarrow> name set \<Rightarrow> name set \<Rightarrow> name set \<Rightarrow> real \<Rightarrow> probabilities" where
  "update probs one_gene two_genes have_trait p =
     map (\<lambda>(key, d).
            (key, update_trait have_trait p key (update_gene one_gene two_genes p key d)))
         probs"

subsection \<open>\<^verbatim>\<open>normalize\<close>\<close>

text \<open>\<^verbatim>\<open>sum(probabilities[key]["gene"].values())\<close> and the same for the trait.\<close>

definition gene_count :: "dist \<Rightarrow> real" where
  "gene_count d = gene2 d + gene1 d + gene0 d"

definition trait_count :: "dist \<Rightarrow> real" where
  "trait_count d = traitT d + traitF d"

text \<open>
  The body of the loop of \<^verbatim>\<open>normalize\<close>. Both sums are taken first; the gene weights
  are divided before the trait weights, and Python's \<^verbatim>\<open>/\<close> raises
  \<^verbatim>\<open>ZeroDivisionError\<close> on a zero divisor.
\<close>

definition normalize_dist :: "dist \<Rightarrow> error + dist" where
  "normalize_dist d =
     (let gc = gene_count d; tc = trait_count d
      in if gc = 0 then Inl ZeroDivisionError
         else if tc = 0 then Inl ZeroDivisionError
         else Inr \<lparr>gene2 = gene2 d / gc, gene1 = gene1 d / gc, gene0 = gene0 d / gc,
                   traitT = traitT d / tc, traitF = traitF d / tc\<rparr>)"

fun normalize :: "probabilities \<Rightarrow> error + probabilities" where
  "normalize [] = Inr []"
| "normalize ((key, d) # rest) =
     (case normalize_dist d of
        Inl e \<Rightarrow> Inl e
      | Inr d' \<Rightarrow>
         (case normalize rest of
            Inl e \<Rightarrow> Inl e
          | Inr rest' \<Rightarrow> Inr ((key, d') # rest')))"

subsection \<open>\<^verbatim>\<open>main\<close>\<close>

text \<open>The initial accumulators: every weight is 0.\<close>

definition zero_dist :: dist where
  "zero_dist = \<lparr>gene2 = 0, gene1 = 0, gene0 = 0, traitT = 0, traitF = 0\<rparr>"

definition init_probabilities :: "people \<Rightarrow> probabilities" where
  "init_probabilities people = map (\<lambda>(key, r). (key, zero_dist)) people"

text \<open>
  \<^verbatim>\<open>fails_evidence\<close>: \<^verbatim>\<open>any(...)\<close> over the names, each of which is a key of
  \<^verbatim>\<open>people\<close>; reading \<^verbatim>\<open>people[person]\<close> for every name visits every row once.
\<close>

definition fails_evidence :: "people \<Rightarrow> name set \<Rightarrow> bool" where
  "fails_evidence people have_trait =
     list_ex (\<lambda>(person_name, r).
                trait r \<noteq> None \<and> trait r \<noteq> Some (person_name \<in> have_trait))
             people"

text \<open>The innermost loop, over \<^verbatim>\<open>powerset(names - one_gene)\<close>.\<close>

fun two_genes_loop ::
  "people \<Rightarrow> name set \<Rightarrow> name set \<Rightarrow> name set list \<Rightarrow> probabilities \<Rightarrow> error + probabilities"
  where
  "two_genes_loop people have_trait one_gene [] probs = Inr probs"
| "two_genes_loop people have_trait one_gene (two_genes # rest) probs =
     (case joint_probability people one_gene two_genes have_trait of
        Inl e \<Rightarrow> Inl e
      | Inr p \<Rightarrow>
          two_genes_loop people have_trait one_gene rest
            (update probs one_gene two_genes have_trait p))"

text \<open>The loop over \<^verbatim>\<open>powerset(names)\<close> for \<^verbatim>\<open>one_gene\<close>; \<^verbatim>\<open>names - one_gene\<close> keeps the
  names outside \<^verbatim>\<open>one_gene\<close>.\<close>

fun one_gene_loop ::
  "people \<Rightarrow> name list \<Rightarrow> name set \<Rightarrow> name set list \<Rightarrow> probabilities \<Rightarrow> error + probabilities"
  where
  "one_gene_loop people names have_trait [] probs = Inr probs"
| "one_gene_loop people names have_trait (one_gene # rest) probs =
     (case two_genes_loop people have_trait one_gene
             (powerset (filter (\<lambda>n. n \<notin> one_gene) names)) probs of
        Inl e \<Rightarrow> Inl e
      | Inr probs' \<Rightarrow> one_gene_loop people names have_trait rest probs')"

text \<open>The outer loop, over \<^verbatim>\<open>powerset(names)\<close> for \<^verbatim>\<open>have_trait\<close>, with its
  \<^verbatim>\<open>continue\<close>.\<close>

fun have_trait_loop ::
  "people \<Rightarrow> name list \<Rightarrow> name set list \<Rightarrow> probabilities \<Rightarrow> error + probabilities"
  where
  "have_trait_loop people names [] probs = Inr probs"
| "have_trait_loop people names (have_trait # rest) probs =
     (if fails_evidence people have_trait
      then have_trait_loop people names rest probs
      else (case one_gene_loop people names have_trait (powerset names) probs of
              Inl e \<Rightarrow> Inl e
            | Inr probs' \<Rightarrow> have_trait_loop people names rest probs'))"

text \<open>
  \<^verbatim>\<open>main\<close> from the loaded population to the normalised distributions (reading the file
  and printing are left out). \<^verbatim>\<open>names = set(people)\<close> is listed in the order of the keys;
  over exact reals every other listing gives the same result.
\<close>

definition accumulate :: "people \<Rightarrow> error + probabilities" where
  "accumulate people =
     (let names = map fst people
      in have_trait_loop people names (powerset names) (init_probabilities people))"

definition main :: "people \<Rightarrow> error + probabilities" where
  "main people =
     (case accumulate people of
        Inl e \<Rightarrow> Inl e
      | Inr probs \<Rightarrow> normalize probs)"

section \<open>Notions used to state the properties\<close>

subsection \<open>Sequences of \<^verbatim>\<open>update\<close> calls\<close>

text \<open>One call of \<^verbatim>\<open>update\<close>: its three sets and the probability \<open>p\<close>.\<close>

type_synonym call = "name set \<times> name set \<times> name set \<times> real"

definition call_p :: "call \<Rightarrow> real" where
  "call_p c = (case c of (one_gene, two_genes, have_trait, p) \<Rightarrow> p)"

text \<open>Calling \<^verbatim>\<open>update\<close> once per element of a list, in the order of the list.\<close>

definition updates :: "call list \<Rightarrow> probabilities \<Rightarrow> probabilities" where
  "updates calls probs =
     fold (\<lambda>(one_gene, two_genes, have_trait, p) pr. update pr one_gene two_genes have_trait p)
       calls probs"

text \<open>What one call contributes to each of the five buckets of the person \<open>key\<close>.\<close>

definition w_gene1 :: "name \<Rightarrow> call \<Rightarrow> real" where
  "w_gene1 key c = (case c of (og, tg, ht, p) \<Rightarrow> if key \<in> og then p else 0)"

definition w_gene2 :: "name \<Rightarrow> call \<Rightarrow> real" where
  "w_gene2 key c = (case c of (og, tg, ht, p) \<Rightarrow> if key \<notin> og \<and> key \<in> tg then p else 0)"

definition w_gene0 :: "name \<Rightarrow> call \<Rightarrow> real" where
  "w_gene0 key c = (case c of (og, tg, ht, p) \<Rightarrow> if key \<notin> og \<and> key \<notin> tg then p else 0)"

definition w_traitT :: "name \<Rightarrow> call \<Rightarrow> real" where
  "w_traitT key c = (case c of (og, tg, ht, p) \<Rightarrow> if key \<in> ht then p else 0)"

definition w_traitF :: "name \<Rightarrow> call \<Rightarrow> real" where
  "w_traitF key c = (case c of (og, tg, ht, p) \<Rightarrow> if key \<notin> ht then p else 0)"

definition add_weights :: "call list \<Rightarrow> name \<Rightarrow> dist \<Rightarrow> dist" where
  "add_weights calls key d =
     \<lparr>gene2 = gene2 d + (\<Sum>c\<leftarrow>calls. w_gene2 key c),
      gene1 = gene1 d + (\<Sum>c\<leftarrow>calls. w_gene1 key c),
      gene0 = gene0 d + (\<Sum>c\<leftarrow>calls. w_gene0 key c),
      traitT = traitT d + (\<Sum>c\<leftarrow>calls. w_traitT key c),
      traitF = traitF d + (\<Sum>c\<leftarrow>calls. w_traitF key c)\<rparr>"

subsection \<open>Merging accumulators\<close>

text \<open>
  The design's parallel variant merges the accumulators of the workers "with simple
  elementwise addition". The source has no such function; this one follows those words.
  All workers start from the accumulators of the same population, so two accumulators
  list the same people in the same order.
\<close>

definition add_dist :: "dist \<Rightarrow> dist \<Rightarrow> dist" where
  "add_dist a b =
     \<lparr>gene2 = gene2 a + gene2 b, gene1 = gene1 a + gene1 b, gene0 = gene0 a + gene0 b,
      traitT = traitT a + traitT b, traitF = traitF a + traitF b\<rparr>"

definition merge :: "probabilities \<Rightarrow> probabilities \<Rightarrow> probabilities" where
  "merge a b = map (\<lambda>((key, d), (key', d')). (key, add_dist d d')) (zip a b)"

subsection \<open>The joint probability as the design states it\<close>

text \<open>
  The population model of the design: a person has no parents, or a mother and a father who
  both are people of the population.
\<close>

definition resolved :: "people \<Rightarrow> name \<times> person \<Rightarrow> bool" where
  "resolved people entry =
     (case (mother (snd entry), father (snd entry)) of
        (None, None) \<Rightarrow> True
      | (Some m, Some f) \<Rightarrow> m \<in> fst ` set people \<and> f \<in> fst ` set people
      | _ \<Rightarrow> False)"

definition parents_resolve :: "people \<Rightarrow> bool" where
  "parents_resolve people = list_all (resolved people) people"

text \<open>The unconditional prior over the gene count: 0 \<open>\<rightarrow>\<close> 0.96, 1 \<open>\<rightarrow>\<close> 0.03, 2 \<open>\<rightarrow>\<close> 0.01.\<close>

definition prior_table :: "nat \<Rightarrow> real" where
  "prior_table g = (if g = 0 then 0.96 else if g = 1 then 0.03 else 0.01)"

text \<open>The conditional table of the trait given the gene count.\<close>

definition conditional_table :: "nat \<Rightarrow> bool \<Rightarrow> real" where
  "conditional_table g t =
     (if g = 0 then (if t then 0.01 else 0.99)
      else if g = 1 then (if t then 0.56 else 0.44)
      else (if t then 0.65 else 0.35))"

text \<open>
  The transmission model: a parent with 0 copies transmits with the mutation rate 0.01, a
  parent with 1 copy with probability 0.5, a parent with 2 copies with 1 minus the mutation
  rate.
\<close>

definition transmission :: "nat \<Rightarrow> real" where
  "transmission g = (if g = 0 then 0.01 else if g = 1 then 0.5 else 1 - 0.01)"

text \<open>The independent-transmission combination for a child.\<close>

definition child_table :: "nat \<Rightarrow> real \<Rightarrow> real \<Rightarrow> real" where
  "child_table g mom dad =
     (if g = 0 then (1 - mom) * (1 - dad)
      else if g = 1 then mom * (1 - dad) + (1 - mom) * dad
      else mom * dad)"

text \<open>The gene probability of one person under a configuration.\<close>

definition gene_probability :: "name set \<Rightarrow> name set \<Rightarrow> name \<times> person \<Rightarrow> real" where
  "gene_probability one_gene two_genes entry =
     (case (mother (snd entry), father (snd entry)) of
        (Some m, Some f) \<Rightarrow>
          child_table (assigned_gene one_gene two_genes (fst entry))
            (transmission (assigned_gene one_gene two_genes m))
            (transmission (assigned_gene one_gene two_genes f))
      | _ \<Rightarrow> prior_table (assigned_gene one_gene two_genes (fst entry)))"

text \<open>The product, over all people, of gene probability times trait probability.\<close>

definition joint_product :: "people \<Rightarrow> name set \<Rightarrow> name set \<Rightarrow> name set \<Rightarrow> real" where
  "joint_product people one_gene two_genes have_trait =
     (\<Prod>entry\<leftarrow>people.
        gene_probability one_gene two_genes entry *
        conditional_table (assigned_gene one_gene two_genes (fst entry))
          (fst entry \<in> have_trait))"

subsection \<open>The enumerated configurations\<close>

text \<open>
  A trait set is consistent with the evidence when, for every person whose observed trait is
  known, membership in the set equals the observation.
\<close>

definition consistent :: "people \<Rightarrow> name set \<Rightarrow> bool" where
  "consistent people have_trait =
     list_all (\<lambda>(key, r). case trait r of None \<Rightarrow> True | Some b \<Rightarrow> (key \<in> have_trait) = b)
       people"

text \<open>
  The calls of \<^verbatim>\<open>update\<close> for one trait set: one per gene partition, in the order of the
  two inner loops, each with the joint probability of its configuration.
\<close>

definition gene_calls :: "people \<Rightarrow> name list \<Rightarrow> name set \<Rightarrow> call list" where
  "gene_calls people names have_trait =
     concat (map (\<lambda>one_gene.
                    map (\<lambda>two_genes.
                           (one_gene, two_genes, have_trait,
                            joint_product people one_gene two_genes have_trait))
                        (powerset (filter (\<lambda>n. n \<notin> one_gene) names)))
                 (powerset names))"

text \<open>The calls of a whole run: those of the consistent trait sets, in the order of the
  outer loop.\<close>

definition run_calls :: "people \<Rightarrow> call list" where
  "run_calls people =
     concat (map (gene_calls people (map fst people))
                 (filter (consistent people) (powerset (map fst people))))"

text \<open>The people whose trait is observed to be true.\<close>

definition observed_true :: "people \<Rightarrow> name set" where
  "observed_true people = {key. \<exists>r. (key, r) \<in> set people \<and> trait r = Some True}"

subsection \<open>Descendants\<close>


section \<open>Properties\<close>

subsection \<open>\<^verbatim>\<open>update\<close> and \<^verbatim>\<open>normalize\<close>\<close>


lemma add_weights_Nil: "add_weights [] key d = d"
  by (simp add: add_weights_def)

lemma update_add_weights:
  "update probs og tg ht p = map (\<lambda>(key, d). (key, add_weights [(og, tg, ht, p)] key d)) probs"
  by (auto simp: update_def add_weights_def update_gene_def update_trait_def
      w_gene0_def w_gene1_def w_gene2_def w_traitT_def w_traitF_def intro!: dist.equality)

lemma add_weights_Cons:
  "add_weights cs key (add_weights [c] key d) = add_weights (c # cs) key d"
  by (simp add: add_weights_def add.assoc)

lemma updates_add_weights:
  "updates calls probs = map (\<lambda>(key, d). (key, add_weights calls key d)) probs"
proof (induction calls arbitrary: probs)
  case Nil
  show ?case by (simp add: updates_def add_weights_Nil)
next
  case (Cons c cs)
  obtain og tg ht p where c: "c = (og, tg, ht, p)" by (cases c) auto
  have "updates (c # cs) probs = updates cs (update probs og tg ht p)"
    by (simp add: updates_def c)
  also have "\<dots> = map (\<lambda>(key, d). (key, add_weights cs key d)) (update probs og tg ht p)"
    by (rule Cons.IH)
  also have "\<dots> = map (\<lambda>(key, d). (key, add_weights (c # cs) key d)) probs"
    by (simp add: update_add_weights c [symmetric] add_weights_Cons case_prod_unfold comp_def)
  finally show ?case .
qed

lemma add_weights_mset:
  assumes "mset calls = mset calls'"
  shows "add_weights calls = add_weights calls'"
proof -
  have "\<And>f :: call \<Rightarrow> real. sum_list (map f calls) = sum_list (map f calls')"
    using assms by (metis mset_map sum_mset_sum_list)
  then show ?thesis by (simp add: add_weights_def fun_eq_iff)
qed

lemma add_weights_append:
  "add_weights (xs @ ys) key zero_dist =
     add_dist (add_weights xs key zero_dist) (add_weights ys key zero_dist)"
  by (simp add: add_weights_def add_dist_def zero_dist_def)

lemma updates_init:
  "updates calls (init_probabilities people) =
     map (\<lambda>(key, r). (key, add_weights calls key zero_dist)) people"
  by (simp add: updates_add_weights init_probabilities_def case_prod_unfold comp_def)

lemma merge_over_people:
  "merge (map (\<lambda>(key, r). (key, f key)) people) (map (\<lambda>(key, r). (key, g key)) people) =
     map (\<lambda>(key, r). (key, add_dist (f key) (g key))) people"
  by (induction people) (auto simp: merge_def)

lemma fold_merge_shards:
  "fold merge (map (\<lambda>s. updates s (init_probabilities people)) shards)
       (map (\<lambda>(key, r). (key, add_weights done key zero_dist)) people) =
     map (\<lambda>(key, r). (key, add_weights (concat shards @ done) key zero_dist)) people"
proof (induction shards arbitrary: "done")
  case Nil
  show ?case by simp
next
  case (Cons s shards)
  have "merge (updates s (init_probabilities people))
          (map (\<lambda>(key, r). (key, add_weights done key zero_dist)) people) =
        map (\<lambda>(key, r). (key, add_weights (s @ done) key zero_dist)) people"
    by (simp add: updates_init merge_over_people add_weights_append)
  then show ?case
    using Cons.IH [of "s @ done"]
    by (simp add: add_weights_mset [of "concat shards @ s @ done" "s @ concat shards @ done"])
qed

text \<open>
  C5. For every configuration and every person, \<^verbatim>\<open>update\<close> adds \<open>p\<close> to exactly one of the
  person's three gene buckets (bucket 1 if the person is in \<open>one_gene\<close>, else bucket 2 if in
  \<open>two_genes\<close>, else bucket 0) and to exactly one of the two trait buckets (true if the person
  is in \<open>have_trait\<close>, else false); every other bucket of the person keeps its value, and the
  people and their order are unchanged.
\<close>

theorem update_one_bucket_each:
  "update probs one_gene two_genes have_trait p =
     map (\<lambda>(key, d).
            (key,
             \<lparr>gene2 = (if key \<notin> one_gene \<and> key \<in> two_genes then gene2 d + p else gene2 d),
              gene1 = (if key \<in> one_gene then gene1 d + p else gene1 d),
              gene0 = (if key \<notin> one_gene \<and> key \<notin> two_genes then gene0 d + p else gene0 d),
              traitT = (if key \<in> have_trait then traitT d + p else traitT d),
              traitF = (if key \<notin> have_trait then traitF d + p else traitF d)\<rparr>))
         probs"
  by (auto simp: update_def update_gene_def update_trait_def intro!: dist.equality)

text \<open>
  C9. Accumulation is a commutative reduction: from the all-zero accumulators, the calls of
  \<^verbatim>\<open>update\<close> give the same accumulators in every order, and splitting the calls into
  shards, accumulating every shard from the all-zero accumulators and merging the results by
  elementwise addition gives the same accumulators as one sequential pass.
\<close>

theorem accumulation_commutative:
  assumes "mset calls' = mset calls" and "mset (concat shards) = mset calls"
  shows "updates calls' (init_probabilities people) = updates calls (init_probabilities people)
       \<and> fold merge (map (\<lambda>s. updates s (init_probabilities people)) shards)
            (init_probabilities people) =
          updates calls (init_probabilities people)"
proof
  show "updates calls' (init_probabilities people) = updates calls (init_probabilities people)"
    by (simp add: updates_init add_weights_mset [OF assms(1)])
  have "init_probabilities people =
          map (\<lambda>(key, r). (key, add_weights [] key zero_dist)) people"
    by (simp add: init_probabilities_def add_weights_Nil)
  then have "fold merge (map (\<lambda>s. updates s (init_probabilities people)) shards)
            (init_probabilities people) =
        map (\<lambda>(key, r). (key, add_weights (concat shards @ []) key zero_dist)) people"
    using fold_merge_shards [of people shards "[]"] by simp
  also have "\<dots> = updates calls (init_probabilities people)"
    using add_weights_mset [OF assms(2)] by (simp add: updates_init)
  finally show "fold merge (map (\<lambda>s. updates s (init_probabilities people)) shards)
            (init_probabilities people) =
          updates calls (init_probabilities people)" .
qed

lemma gene_count_add_weights:
  "gene_count (add_weights calls key d) = gene_count d + (\<Sum>c\<leftarrow>calls. call_p c)"
proof -
  have "\<And>c. w_gene2 key c + w_gene1 key c + w_gene0 key c = call_p c"
    by (auto simp: w_gene2_def w_gene1_def w_gene0_def call_p_def split: prod.splits)
  then have "(\<Sum>c\<leftarrow>calls. call_p c) =
      (\<Sum>c\<leftarrow>calls. w_gene2 key c) + (\<Sum>c\<leftarrow>calls. w_gene1 key c) + (\<Sum>c\<leftarrow>calls. w_gene0 key c)"
    by (simp add: sum_list_addf [symmetric])
  then show ?thesis by (simp add: gene_count_def add_weights_def)
qed

lemma trait_count_add_weights:
  "trait_count (add_weights calls key d) = trait_count d + (\<Sum>c\<leftarrow>calls. call_p c)"
proof -
  have "\<And>c. w_traitT key c + w_traitF key c = call_p c"
    by (auto simp: w_traitT_def w_traitF_def call_p_def split: prod.splits)
  then have "(\<Sum>c\<leftarrow>calls. call_p c) =
      (\<Sum>c\<leftarrow>calls. w_traitT key c) + (\<Sum>c\<leftarrow>calls. w_traitF key c)"
    by (simp add: sum_list_addf [symmetric])
  then show ?thesis by (simp add: trait_count_def add_weights_def)
qed

lemma counts_zero_dist: "gene_count zero_dist = 0" "trait_count zero_dist = 0"
  by (simp_all add: gene_count_def trait_count_def zero_dist_def)


lemma normalize_dist_Inl: "normalize_dist d = Inl e \<Longrightarrow> e = ZeroDivisionError"
  by (auto simp: normalize_dist_def Let_def split: if_splits)

lemma normalize_dist_fails_iff:
  "(\<exists>e. normalize_dist d = Inl e) \<longleftrightarrow> gene_count d = 0 \<or> trait_count d = 0"
  by (auto simp: normalize_dist_def Let_def)

lemma normalize_Inl: "normalize probs = Inl e \<Longrightarrow> e = ZeroDivisionError"
  by (induction probs arbitrary: e rule: normalize.induct)
     (auto split: sum.splits dest: normalize_dist_Inl)

lemma normalize_fails_iff:
  "(\<exists>e. normalize probs = Inl e) \<longleftrightarrow>
     (\<exists>(key, d) \<in> set probs. gene_count d = 0 \<or> trait_count d = 0)"
proof (induction probs rule: normalize.induct)
  case 1
  show ?case by simp
next
  case (2 key d rest)
  show ?case
  proof (cases "normalize_dist d")
    case (Inl e)
    then have "gene_count d = 0 \<or> trait_count d = 0"
      using normalize_dist_fails_iff [of d] by auto
    with Inl show ?thesis by auto
  next
    case (Inr d')
    then have nz: "\<not> (gene_count d = 0 \<or> trait_count d = 0)"
      using normalize_dist_fails_iff [of d] by auto
    have "(\<exists>e. normalize ((key, d) # rest) = Inl e) \<longleftrightarrow> (\<exists>e. normalize rest = Inl e)"
      using Inr by (auto split: sum.splits)
    with "2.IH" [OF Inr] nz show ?thesis by auto
  qed
qed

lemma normalize_dist_pos:
  assumes "0 < gene_count d" and "0 < trait_count d"
  shows "\<exists>d'. normalize_dist d = Inr d' \<and> gene_count d' = 1 \<and> trait_count d' = 1
           \<and> gene2 d' = gene2 d / gene_count d \<and> gene1 d' = gene1 d / gene_count d
           \<and> gene0 d' = gene0 d / gene_count d
           \<and> traitT d' = traitT d / trait_count d \<and> traitF d' = traitF d / trait_count d"
proof -
  have g: "gene2 d / gene_count d + gene1 d / gene_count d + gene0 d / gene_count d = 1"
    using assms(1) by (simp add: add_divide_distrib [symmetric] gene_count_def)
  have t: "traitT d / trait_count d + traitF d / trait_count d = 1"
    using assms(2) by (simp add: add_divide_distrib [symmetric] trait_count_def)
  show ?thesis
    using assms g t by (simp add: normalize_dist_def Let_def gene_count_def trait_count_def)
qed

text \<open>
  C4. When every person's accumulated gene weights and trait weights have strictly positive
  sums, \<^verbatim>\<open>normalize\<close> returns, keeps the people in place, and for every person each of the
  two distributions sums to exactly 1, every weight being the old weight divided by the sum
  of its own distribution (so proportions within a distribution are preserved).
\<close>

theorem normalize_sums_to_one:
  assumes "\<forall>(key, d) \<in> set probs. 0 < gene_count d \<and> 0 < trait_count d"
  shows "\<exists>probs'. normalize probs = Inr probs'
           \<and> list_all2 (\<lambda>(key, d) (key', d').
                 key' = key \<and> gene_count d' = 1 \<and> trait_count d' = 1
                 \<and> gene2 d' = gene2 d / gene_count d \<and> gene1 d' = gene1 d / gene_count d
                 \<and> gene0 d' = gene0 d / gene_count d
                 \<and> traitT d' = traitT d / trait_count d
                 \<and> traitF d' = traitF d / trait_count d) probs probs'"
  using assms
proof (induction probs rule: normalize.induct)
  case 1
  show ?case by simp
next
  case (2 key d rest)
  from "2.prems" have pos: "0 < gene_count d" "0 < trait_count d" by auto
  from normalize_dist_pos [OF pos] obtain d' where d': "normalize_dist d = Inr d'"
    and props: "gene_count d' = 1" "trait_count d' = 1"
      "gene2 d' = gene2 d / gene_count d" "gene1 d' = gene1 d / gene_count d"
      "gene0 d' = gene0 d / gene_count d"
      "traitT d' = traitT d / trait_count d" "traitF d' = traitF d / trait_count d"
    by blast
  from "2.IH" [OF d'] "2.prems" obtain rest' where rest': "normalize rest = Inr rest'"
    and all: "list_all2 (\<lambda>(key, d) (key', d').
                 key' = key \<and> gene_count d' = 1 \<and> trait_count d' = 1
                 \<and> gene2 d' = gene2 d / gene_count d \<and> gene1 d' = gene1 d / gene_count d
                 \<and> gene0 d' = gene0 d / gene_count d
                 \<and> traitT d' = traitT d / trait_count d
                 \<and> traitF d' = traitF d / trait_count d) rest rest'"
    by auto
  have "normalize ((key, d) # rest) = Inr ((key, d') # rest')"
    by (simp add: d' rest')
  with props all show ?case by simp
qed

theorem normalize_sums_to_one_witness:
  "0 < gene_count \<lparr>gene2 = 1, gene1 = 2, gene0 = 5, traitT = 2, traitF = 6\<rparr>
   \<and> 0 < trait_count \<lparr>gene2 = 1, gene1 = 2, gene0 = 5, traitT = 2, traitF = 6\<rparr>
   \<and> normalize [(''Harry'', \<lparr>gene2 = 1, gene1 = 2, gene0 = 5, traitT = 2, traitF = 6\<rparr>)] =
       Inr [(''Harry'', \<lparr>gene2 = 1 / 8, gene1 = 1 / 4, gene0 = 5 / 8,
                         traitT = 1 / 4, traitF = 3 / 4\<rparr>)]"
proof -
  have h: "\<forall>(key, d) \<in> set [(''Harry'', \<lparr>gene2 = 1, gene1 = 2, gene0 = 5, traitT = 2, traitF = 6\<rparr>)].
      0 < gene_count d \<and> 0 < trait_count d"
    by (simp add: gene_count_def trait_count_def)
  from normalize_sums_to_one [OF h] obtain probs' where
    "normalize [(''Harry'', \<lparr>gene2 = 1, gene1 = 2, gene0 = 5, traitT = 2, traitF = 6\<rparr>)] = Inr probs'"
    by blast
  then show ?thesis
    using h by (simp add: normalize_dist_def gene_count_def trait_count_def)
qed

text \<open>
  C6. \<^verbatim>\<open>normalize\<close> fails with \<^verbatim>\<open>ZeroDivisionError\<close> if and only if some person's gene
  weights or trait weights sum to zero, and it fails in no other way; \<^verbatim>\<open>main\<close> returns
  whatever \<^verbatim>\<open>normalize\<close> returns on the accumulated weights, so the failure reaches the
  caller and no distribution is returned; and when no configuration contributed any weight to
  a non-empty population, \<^verbatim>\<open>normalize\<close> fails.
\<close>

theorem normalize_fails_iff_zero_sum:
  "(normalize probs = Inl ZeroDivisionError \<longleftrightarrow>
      (\<exists>(key, d) \<in> set probs. gene_count d = 0 \<or> trait_count d = 0))
   \<and> (\<forall>e. normalize probs = Inl e \<longrightarrow> e = ZeroDivisionError)
   \<and> (\<forall>people. accumulate people = Inr probs \<longrightarrow> main people = normalize probs)
   \<and> (\<forall>people. people \<noteq> [] \<longrightarrow>
         normalize (updates [] (init_probabilities people)) = Inl ZeroDivisionError)"
proof (intro conjI allI impI)
  show "normalize probs = Inl ZeroDivisionError \<longleftrightarrow>
      (\<exists>(key, d) \<in> set probs. gene_count d = 0 \<or> trait_count d = 0)"
    using normalize_fails_iff [of probs] normalize_Inl [of probs] by auto
next
  fix e assume "normalize probs = Inl e"
  then show "e = ZeroDivisionError" by (rule normalize_Inl)
next
  fix people assume "accumulate people = Inr probs"
  then show "main people = normalize probs" by (simp add: main_def)
next
  fix people :: people assume ne: "people \<noteq> []"
  then obtain key r rest where p: "people = (key, r) # rest"
    by (cases people) auto
  have "(key, zero_dist) \<in> set (updates [] (init_probabilities people))"
    by (simp add: updates_def init_probabilities_def p)
  moreover have "gene_count zero_dist = 0" by (simp add: counts_zero_dist)
  ultimately have "\<exists>(key, d) \<in> set (updates [] (init_probabilities people)).
      gene_count d = 0 \<or> trait_count d = 0"
    by blast
  then show "normalize (updates [] (init_probabilities people)) = Inl ZeroDivisionError"
    using normalize_fails_iff [of "updates [] (init_probabilities people)"]
      normalize_Inl [of "updates [] (init_probabilities people)"] by auto
qed

theorem normalize_fails_iff_zero_sum_witness:
  "normalize [(''Harry'', zero_dist)] = Inl ZeroDivisionError
   \<and> main [(''Harry'', \<lparr>mother = None, father = None, trait = None\<rparr>)] =
       normalize [(''Harry'', \<lparr>gene2 = 1 / 100, gene1 = 3 / 100, gene0 = 24 / 25,
                                 traitT = 329 / 10000, traitF = 9671 / 10000\<rparr>)]
   \<and> normalize (updates [] (init_probabilities
         [(''Harry'', \<lparr>mother = None, father = None, trait = None\<rparr>)])) =
       Inl ZeroDivisionError"
proof -
  have acc: "accumulate [(''Harry'', \<lparr>mother = None, father = None, trait = None\<rparr>)] =
      Inr [(''Harry'', \<lparr>gene2 = 1 / 100, gene1 = 3 / 100, gene0 = 24 / 25,
                        traitT = 329 / 10000, traitF = 9671 / 10000\<rparr>)]"
    by (simp add: accumulate_def powerset_def upt_rec numeral_eq_Suc fails_evidence_def
        joint_probability_def person_p_def probe_gene_def assigned_gene_def PROBS_gene_def
        PROBS_trait_def Let_def update_def update_gene_def update_trait_def
        init_probabilities_def zero_dist_def)
  have z: "\<exists>(key, d) \<in> set [(''Harry'', zero_dist)]. gene_count d = 0 \<or> trait_count d = 0"
    by (simp add: gene_count_def zero_dist_def)
  show ?thesis
    using normalize_fails_iff_zero_sum [of "[(''Harry'', zero_dist)]"] z
      normalize_fails_iff_zero_sum
        [of "[(''Harry'', \<lparr>gene2 = 1 / 100, gene1 = 3 / 100, gene0 = 24 / 25,
                            traitT = 329 / 10000, traitF = 9671 / 10000\<rparr>)]"] acc
    by blast
qed

theorem accumulation_commutative_witness:
  "mset [({''Lily''}, {}, {''Lily''}, 1 / 4), ({}, {''Lily''}, {}, 1 / 2 :: real)] =
     mset [({}, {''Lily''}, {}, 1 / 2), ({''Lily''}, {}, {''Lily''}, 1 / 4)]
   \<and> mset (concat [ [({''Lily''}, {}, {''Lily''}, 1 / 4)], [({}, {''Lily''}, {}, 1 / 2 :: real)] ]) =
     mset [({}, {''Lily''}, {}, 1 / 2), ({''Lily''}, {}, {''Lily''}, 1 / 4)]
   \<and> updates [({''Lily''}, {}, {''Lily''}, 1 / 4), ({}, {''Lily''}, {}, 1 / 2)]
        (init_probabilities [(''Lily'', \<lparr>mother = None, father = None, trait = None\<rparr>)]) =
      updates [({}, {''Lily''}, {}, 1 / 2), ({''Lily''}, {}, {''Lily''}, 1 / 4)]
        (init_probabilities [(''Lily'', \<lparr>mother = None, father = None, trait = None\<rparr>)])
   \<and> fold merge
        (map (\<lambda>s. updates s
                (init_probabilities [(''Lily'', \<lparr>mother = None, father = None, trait = None\<rparr>)]))
           [ [({''Lily''}, {}, {''Lily''}, 1 / 4)], [({}, {''Lily''}, {}, 1 / 2)] ])
        (init_probabilities [(''Lily'', \<lparr>mother = None, father = None, trait = None\<rparr>)]) =
      updates [({}, {''Lily''}, {}, 1 / 2), ({''Lily''}, {}, {''Lily''}, 1 / 4)]
        (init_probabilities [(''Lily'', \<lparr>mother = None, father = None, trait = None\<rparr>)])"
proof -
  have a: "mset [({''Lily''}, {}, {''Lily''}, 1 / 4), ({}, {''Lily''}, {}, 1 / 2 :: real)] =
     mset [({}, {''Lily''}, {}, 1 / 2), ({''Lily''}, {}, {''Lily''}, 1 / 4)]"
    by (simp add: add.commute)
  have b: "mset (concat [ [({''Lily''}, {}, {''Lily''}, 1 / 4)], [({}, {''Lily''}, {}, 1 / 2 :: real)] ]) =
     mset [({}, {''Lily''}, {}, 1 / 2), ({''Lily''}, {}, {''Lily''}, 1 / 4)]"
    by (simp add: add.commute)
  show ?thesis
    using accumulation_commutative [OF a b] a b by blast
qed


subsection \<open>\<^verbatim>\<open>joint_probability\<close>\<close>


lemma assigned_gene_cases:
  "assigned_gene og tg key = 0 \<or> assigned_gene og tg key = 1 \<or> assigned_gene og tg key = 2"
  by (simp add: assigned_gene_def)

lemma PROBS_gene_prior: "PROBS_gene (assigned_gene og tg key) = prior_table (assigned_gene og tg key)"
  by (simp add: PROBS_gene_def prior_table_def assigned_gene_def)

lemma PROBS_trait_conditional:
  "PROBS_trait (assigned_gene og tg key) t = conditional_table (assigned_gene og tg key) t"
  by (simp add: PROBS_trait_def conditional_table_def assigned_gene_def)

lemma pass_prob_transmission: "pass_prob g = transmission g"
  by (simp add: pass_prob_def transmission_def MUTATION_def)

lemma person_p_parents:
  assumes "mother r = Some m" and "father r = Some f"
    and "m \<in> fst ` set people" and "f \<in> fst ` set people"
  shows "person_p people og tg ht (key, r) =
     Inr (child_table (assigned_gene og tg key)
            (transmission (assigned_gene og tg m)) (transmission (assigned_gene og tg f)) *
          conditional_table (assigned_gene og tg key) (key \<in> ht))"
  using assms
  by (simp add: person_p_def probe_gene_def Let_def child_table_def pass_prob_transmission
      PROBS_trait_conditional)

lemma person_p_no_parents:
  assumes "mother r = None" and "father r = None"
  shows "person_p people og tg ht (key, r) =
     Inr (prior_table (assigned_gene og tg key) *
          conditional_table (assigned_gene og tg key) (key \<in> ht))"
  using assms by (simp add: person_p_def Let_def PROBS_gene_prior PROBS_trait_conditional)

lemma person_p_resolved:
  assumes "resolved people e"
  shows "person_p people og tg ht e =
     Inr (gene_probability og tg e * conditional_table (assigned_gene og tg (fst e)) (fst e \<in> ht))"
proof (cases e)
  case (Pair key r)
  show ?thesis
  proof (cases "mother r")
    case None
    with assms Pair have "father r = None"
      by (auto simp: resolved_def split: option.splits)
    with None Pair show ?thesis
      by (simp add: person_p_no_parents gene_probability_def)
  next
    case (Some m)
    with assms Pair obtain f where f: "father r = Some f"
      and in_pop: "m \<in> fst ` set people" "f \<in> fst ` set people"
      by (auto simp: resolved_def split: option.splits)
    then show ?thesis
      using Some Pair by (simp add: person_p_parents gene_probability_def)
  qed
qed

lemma joint_loop_resolved:
  assumes "list_all (resolved people) es"
  shows "joint_loop people og tg ht es acc =
     Inr (acc * (\<Prod>entry\<leftarrow>es. gene_probability og tg entry *
                   conditional_table (assigned_gene og tg (fst entry)) (fst entry \<in> ht)))"
  using assms
proof (induction es arbitrary: acc)
  case Nil
  show ?case by simp
next
  case (Cons e es)
  then have "resolved people e" and "list_all (resolved people) es" by simp_all
  then show ?case
    by (simp add: person_p_resolved Cons.IH mult.assoc)
qed

lemma joint_probability_resolved:
  "parents_resolve people \<Longrightarrow>
     joint_probability people og tg ht = Inr (joint_product people og tg ht)"
  by (simp add: joint_probability_def joint_product_def parents_resolve_def joint_loop_resolved)

lemma transmission_bounds: "0 < transmission g" "transmission g < 1"
  by (simp_all add: transmission_def)

lemma child_table_pos:
  assumes "0 < mom" "mom < 1" "0 < dad" "dad < 1"
  shows "0 < child_table g mom dad"
  using assms by (auto simp: child_table_def intro!: mult_pos_pos add_pos_pos)

lemma prior_table_pos: "0 < prior_table g"
  by (simp add: prior_table_def)

lemma conditional_table_pos: "0 < conditional_table g t"
  by (simp add: conditional_table_def)

lemma gene_probability_pos: "0 < gene_probability og tg e"
  by (auto simp: gene_probability_def prior_table_pos child_table_pos transmission_bounds
      split: option.splits)

lemma prod_list_pos: "(\<And>x. x \<in> set xs \<Longrightarrow> 0 < f x) \<Longrightarrow> (0::real) < (\<Prod>x\<leftarrow>xs. f x)"
  by (induction xs) (auto intro!: mult_pos_pos)

lemma joint_product_pos: "0 < joint_product people og tg ht"
  unfolding joint_product_def
  by (rule prod_list_pos) (simp add: gene_probability_pos conditional_table_pos)





subsection \<open>The enumeration and the whole run\<close>


lemma subseqs_length_le: "ys \<in> set (subseqs xs) \<Longrightarrow> length ys \<le> length xs"
  by (induction xs arbitrary: ys) (auto simp: Let_def intro: le_SucI)

lemma filter_mset_subseqs_Nil: "filter_mset (\<lambda>ys. ys = []) (mset (subseqs xs)) = {#[]#}"
  by (induction xs) (auto simp: Let_def filter_mset_image_mset comp_def)

lemma mset_combinations:
  "mset (combinations xs r) = filter_mset (\<lambda>ys. length ys = r) (mset (subseqs xs))"
proof (induction xs r rule: combinations.induct)
  case (1 xs)
  show ?case by (simp add: filter_mset_subseqs_Nil)
next
  case (2 r)
  show ?case by simp
next
  case (3 x xs r)
  have "filter_mset (\<lambda>ys. length ys = Suc r) (image_mset ((#) x) (mset (subseqs xs))) =
        image_mset ((#) x) (filter_mset (\<lambda>ys. length ys = r) (mset (subseqs xs)))"
    by (simp add: filter_mset_image_mset comp_def)
  with 3 show ?case by (simp add: Let_def)
qed

lemma mset_concat_combinations:
  "mset (concat (map (combinations xs) [0..<k])) =
     filter_mset (\<lambda>ys. length ys < k) (mset (subseqs xs))"
proof (induction k)
  case 0
  show ?case by simp
next
  case (Suc k)
  have "filter_mset (\<lambda>ys. length ys < Suc k) (mset (subseqs xs)) =
        filter_mset (\<lambda>ys. length ys < k) (mset (subseqs xs)) +
        filter_mset (\<lambda>ys. length ys = k) (mset (subseqs xs))"
    by (rule multiset_eqI) (auto simp: less_Suc_eq)
  with Suc show ?case by (simp add: mset_combinations)
qed

lemma mset_powerset: "mset (powerset xs) = image_mset set (mset (subseqs xs))"
proof -
  have "filter_mset (\<lambda>ys. length ys < length xs + 1) (mset (subseqs xs)) = mset (subseqs xs)"
    by (rule filter_mset_eq_conv [THEN iffD2]) (auto simp: less_Suc_eq_le dest: subseqs_length_le)
  then have "mset (concat (map (combinations xs) [0..<length xs + 1])) = mset (subseqs xs)"
    by (simp only: mset_concat_combinations)
  then have "image_mset set (mset (concat (map (combinations xs) [0..<length xs + 1]))) =
      image_mset set (mset (subseqs xs))"
    by (rule arg_cong)
  then show ?thesis
    unfolding powerset_def by (simp only: mset_map)
qed

lemma set_powerset: "set (powerset xs) = Pow (set xs)"
proof -
  have "set (powerset xs) = set_mset (mset (powerset xs))" by simp
  also have "\<dots> = set ` set (subseqs xs)" by (simp only: mset_powerset) simp
  finally show ?thesis by (simp add: subseqs_powset)
qed

lemma distinct_powerset: "distinct xs \<Longrightarrow> distinct (powerset xs)"
proof -
  assume "distinct xs"
  then have "distinct (map set (subseqs xs))" by (rule distinct_set_subseqs)
  moreover have "mset (powerset xs) = mset (map set (subseqs xs))"
    by (simp add: mset_powerset)
  ultimately show ?thesis by (metis mset_eq_imp_distinct_iff)
qed

lemma sum_list_powerset:
  fixes f :: "'a set \<Rightarrow> real"
  assumes "distinct xs"
  shows "(\<Sum>A\<leftarrow>powerset xs. f A) = (\<Sum>A\<in>Pow (set xs). f A)"
  using sum_list_distinct_conv_sum_set [OF distinct_powerset [OF assms], of f]
  by (simp add: set_powerset)

lemma fails_evidence_consistent: "fails_evidence people ht \<longleftrightarrow> \<not> consistent people ht"
  by (induction people) (auto simp: fails_evidence_def consistent_def split: option.splits)

lemma consistent_iff:
  "consistent people ht \<longleftrightarrow>
     (\<forall>(key, r) \<in> set people. \<forall>b. trait r = Some b \<longrightarrow> (key \<in> ht) = b)"
  by (induction people) (auto simp: consistent_def split: option.splits)

lemma updates_append: "updates (a @ b) probs = updates b (updates a probs)"
  by (simp add: updates_def)

lemma two_genes_loop_resolved:
  assumes "parents_resolve people"
  shows "two_genes_loop people ht og tgs probs =
     Inr (updates (map (\<lambda>tg. (og, tg, ht, joint_product people og tg ht)) tgs) probs)"
proof (induction tgs arbitrary: probs)
  case Nil
  show ?case by (simp add: updates_def)
next
  case (Cons tg tgs)
  show ?case
    by (simp add: joint_probability_resolved [OF assms] Cons.IH) (simp add: updates_def)
qed

lemma one_gene_loop_resolved:
  assumes "parents_resolve people"
  shows "one_gene_loop people names ht ogs probs =
     Inr (updates
            (concat (map (\<lambda>og. map (\<lambda>tg. (og, tg, ht, joint_product people og tg ht))
                                  (powerset (filter (\<lambda>n. n \<notin> og) names))) ogs))
            probs)"
proof (induction ogs arbitrary: probs)
  case Nil
  show ?case by (simp add: updates_def)
next
  case (Cons og ogs)
  show ?case
    by (simp add: two_genes_loop_resolved [OF assms] Cons.IH updates_append)
qed

lemma have_trait_loop_resolved:
  assumes "parents_resolve people"
  shows "have_trait_loop people names hts probs =
     Inr (updates (concat (map (gene_calls people names) (filter (consistent people) hts)))
            probs)"
proof (induction hts arbitrary: probs)
  case Nil
  show ?case by (simp add: updates_def)
next
  case (Cons ht hts)
  show ?case
    by (simp add: fails_evidence_consistent one_gene_loop_resolved [OF assms] Cons.IH
        updates_append gene_calls_def)
qed

lemma accumulate_resolved:
  "parents_resolve people \<Longrightarrow>
     accumulate people = Inr (updates (run_calls people) (init_probabilities people))"
  by (simp add: accumulate_def run_calls_def have_trait_loop_resolved Let_def)

lemma set_gene_calls:
  "set (gene_calls people names ht) =
     {(og, tg, ht', p). ht' = ht \<and> og \<subseteq> set names \<and> tg \<subseteq> set names - og
        \<and> p = joint_product people og tg ht}"
  by (auto simp: gene_calls_def set_powerset)

lemma set_run_calls:
  "set (run_calls people) =
     {(og, tg, ht, p). ht \<subseteq> fst ` set people \<and> consistent people ht
        \<and> og \<subseteq> fst ` set people \<and> tg \<subseteq> fst ` set people - og
        \<and> p = joint_product people og tg ht}"
  by (auto simp: run_calls_def set_gene_calls set_powerset)


lemma normalize_nonzero:
  assumes "\<forall>(key, d) \<in> set probs. gene_count d \<noteq> 0 \<and> trait_count d \<noteq> 0"
  shows "normalize probs =
     Inr (map (\<lambda>(key, d).
                 (key, \<lparr>gene2 = gene2 d / gene_count d, gene1 = gene1 d / gene_count d,
                        gene0 = gene0 d / gene_count d,
                        traitT = traitT d / trait_count d,
                        traitF = traitF d / trait_count d\<rparr>))
            probs)"
  using assms
  by (induction probs rule: normalize.induct) (auto simp: normalize_dist_def Let_def)

lemma sum_list_pos:
  fixes f :: "'a \<Rightarrow> real"
  assumes "xs \<noteq> []" and "\<And>x. x \<in> set xs \<Longrightarrow> 0 < f x"
  shows "0 < (\<Sum>x\<leftarrow>xs. f x)"
  using assms
proof (induction xs)
  case Nil
  then show ?case by simp
next
  case (Cons x xs)
  have "0 \<le> (\<Sum>x\<leftarrow>xs. f x)"
    by (rule sum_list_nonneg) (auto dest: Cons.prems(2) [OF list.set_intros(2)] intro: less_imp_le)
  moreover have "0 < f x" by (rule Cons.prems(2)) simp
  ultimately show ?case by simp
qed

lemma consistent_observed_true:
  assumes "distinct (map fst people)"
  shows "consistent people (observed_true people)"
  unfolding consistent_iff
proof (intro ballI, clarify)
  fix key r b
  assume in_p: "(key, r) \<in> set people" and tr: "trait r = Some b"
  show "(key \<in> observed_true people) = b"
  proof (cases b)
    case True
    with in_p tr show ?thesis by (auto simp: observed_true_def)
  next
    case False
    have "key \<notin> observed_true people"
    proof
      assume "key \<in> observed_true people"
      then obtain r' where "(key, r') \<in> set people" "trait r' = Some True"
        by (auto simp: observed_true_def)
      with in_p assms have "r' = r" by (meson eq_key_imp_eq_value)
      with \<open>trait r' = Some True\<close> tr False show False by simp
    qed
    with False show ?thesis by simp
  qed
qed

lemma run_calls_nonempty:
  assumes "distinct (map fst people)"
  shows "run_calls people \<noteq> []"
proof -
  have "observed_true people \<subseteq> fst ` set people"
    by (force simp: observed_true_def)
  then have "({}, {}, observed_true people, joint_product people {} {} (observed_true people))
      \<in> set (run_calls people)"
    using consistent_observed_true [OF assms] by (simp add: set_run_calls)
  then show ?thesis by auto
qed

lemma run_calls_total_pos:
  assumes "distinct (map fst people)"
  shows "0 < (\<Sum>c\<leftarrow>run_calls people. call_p c)"
proof (rule sum_list_pos)
  show "run_calls people \<noteq> []" using assms by (rule run_calls_nonempty)
next
  fix c assume "c \<in> set (run_calls people)"
  then show "0 < call_p c"
    by (auto simp: set_run_calls call_p_def joint_product_pos)
qed

lemma main_resolved:
  assumes "distinct (map fst people)" and "parents_resolve people"
  shows "main people =
     Inr (map (\<lambda>(key, r).
                 (key,
                  \<lparr>gene2 = (\<Sum>c\<leftarrow>run_calls people. w_gene2 key c) / (\<Sum>c\<leftarrow>run_calls people. call_p c),
                   gene1 = (\<Sum>c\<leftarrow>run_calls people. w_gene1 key c) / (\<Sum>c\<leftarrow>run_calls people. call_p c),
                   gene0 = (\<Sum>c\<leftarrow>run_calls people. w_gene0 key c) / (\<Sum>c\<leftarrow>run_calls people. call_p c),
                   traitT = (\<Sum>c\<leftarrow>run_calls people. w_traitT key c) / (\<Sum>c\<leftarrow>run_calls people. call_p c),
                   traitF = (\<Sum>c\<leftarrow>run_calls people. w_traitF key c) / (\<Sum>c\<leftarrow>run_calls people. call_p c)\<rparr>))
            people)"
proof -
  let ?calls = "run_calls people"
  let ?acc = "updates ?calls (init_probabilities people)"
  have pos: "0 < (\<Sum>c\<leftarrow>?calls. call_p c)" using assms(1) by (rule run_calls_total_pos)
  have cnt: "\<forall>(key, d) \<in> set ?acc. gene_count d \<noteq> 0 \<and> trait_count d \<noteq> 0"
    using pos
    by (auto simp: updates_init gene_count_add_weights trait_count_add_weights counts_zero_dist)
  have "main people = normalize ?acc"
    by (simp add: main_def accumulate_resolved [OF assms(2)])
  also have "\<dots> = Inr (map (\<lambda>(key, d).
                 (key, \<lparr>gene2 = gene2 d / gene_count d, gene1 = gene1 d / gene_count d,
                        gene0 = gene0 d / gene_count d,
                        traitT = traitT d / trait_count d,
                        traitF = traitF d / trait_count d\<rparr>)) ?acc)"
    by (rule normalize_nonzero [OF cnt])
  also have "\<dots> = Inr (map (\<lambda>(key, r).
                 (key,
                  \<lparr>gene2 = (\<Sum>c\<leftarrow>run_calls people. w_gene2 key c) / (\<Sum>c\<leftarrow>run_calls people. call_p c),
                   gene1 = (\<Sum>c\<leftarrow>run_calls people. w_gene1 key c) / (\<Sum>c\<leftarrow>run_calls people. call_p c),
                   gene0 = (\<Sum>c\<leftarrow>run_calls people. w_gene0 key c) / (\<Sum>c\<leftarrow>run_calls people. call_p c),
                   traitT = (\<Sum>c\<leftarrow>run_calls people. w_traitT key c) / (\<Sum>c\<leftarrow>run_calls people. call_p c),
                   traitF = (\<Sum>c\<leftarrow>run_calls people. w_traitF key c) / (\<Sum>c\<leftarrow>run_calls people. call_p c)\<rparr>))
            people)"
    by (simp add: updates_init comp_def case_prod_unfold gene_count_add_weights
        trait_count_add_weights counts_zero_dist)
       (simp add: add_weights_def zero_dist_def)
  finally show ?thesis .
qed

lemma w_traitF_observed_true:
  assumes "(key, r) \<in> set people" and "trait r = Some True"
  shows "(\<Sum>c\<leftarrow>run_calls people. w_traitF key c) = 0"
proof -
  have "w_traitF key c = 0" if "c \<in> set (run_calls people)" for c
  proof -
    obtain og tg ht p where c: "c = (og, tg, ht, p)" by (cases c) auto
    with that have "consistent people ht" by (simp add: set_run_calls)
    with assms have "key \<in> ht" unfolding consistent_iff by blast
    then show ?thesis by (simp add: c w_traitF_def)
  qed
  then have "map (w_traitF key) (run_calls people) = map (\<lambda>c. 0) (run_calls people)"
    by simp
  then show ?thesis by (simp only: sum_list_0)
qed

lemma w_trait_total:
  "(\<Sum>c\<leftarrow>calls. w_traitT key c) + (\<Sum>c\<leftarrow>calls. w_traitF key c) = (\<Sum>c\<leftarrow>calls. call_p c)"
proof -
  have "\<And>c. w_traitT key c + w_traitF key c = call_p c"
    by (auto simp: w_traitT_def w_traitF_def call_p_def split: prod.splits)
  then show ?thesis by (simp add: sum_list_addf [symmetric])
qed

text \<open>
  C7. For every population with pairwise different names whose parent references resolve,
  and every person whose observed trait is true, the full run returns, and that person's
  posterior trait distribution is exactly 1 for true and 0 for false; the false bucket never
  received any accumulated weight.
\<close>

theorem observed_true_posterior:
  assumes "distinct (map fst people)" and "parents_resolve people"
    and "(key, r) \<in> set people" and "trait r = Some True"
  shows "\<exists>acc res. accumulate people = Inr acc \<and> main people = Inr res
           \<and> map fst res = map fst people
           \<and> (\<exists>d. (key, d) \<in> set res)
           \<and> (\<forall>d. (key, d) \<in> set acc \<longrightarrow> traitF d = 0)
           \<and> (\<forall>d. (key, d) \<in> set res \<longrightarrow> traitT d = 1 \<and> traitF d = 0)"
proof -
  let ?calls = "run_calls people"
  let ?T = "\<Sum>c\<leftarrow>?calls. call_p c"
  have pos: "0 < ?T" using assms(1) by (rule run_calls_total_pos)
  have f0: "(\<Sum>c\<leftarrow>?calls. w_traitF key c) = 0"
    using assms(3,4) by (rule w_traitF_observed_true)
  with w_trait_total [of key ?calls] have t: "(\<Sum>c\<leftarrow>?calls. w_traitT key c) = ?T" by simp
  have acc: "accumulate people = Inr (updates ?calls (init_probabilities people))"
    using assms(2) by (rule accumulate_resolved)
  note res = main_resolved [OF assms(1,2)]
  have "\<forall>d. (key, d) \<in> set (updates ?calls (init_probabilities people)) \<longrightarrow> traitF d = 0"
    using f0 by (auto simp: updates_init add_weights_def zero_dist_def)
  moreover have "\<exists>d. (key, d) \<in> set (projr (main people))"
    using assms(3) by (force simp: res)
  moreover have "\<forall>d. (key, d) \<in> set (projr (main people)) \<longrightarrow> traitT d = 1 \<and> traitF d = 0"
    using f0 t pos by (auto simp: res)
  moreover have "map fst (projr (main people)) = map fst people"
    by (simp add: res comp_def case_prod_unfold)
  ultimately show ?thesis
    using acc res by auto
qed

theorem observed_true_posterior_witness:
  "distinct (map fst [(''James'', \<lparr>mother = None, father = None, trait = Some True\<rparr>)])
   \<and> parents_resolve [(''James'', \<lparr>mother = None, father = None, trait = Some True\<rparr>)]
   \<and> (\<exists>res. main [(''James'', \<lparr>mother = None, father = None, trait = Some True\<rparr>)] = Inr res
         \<and> (\<exists>d. (''James'', d) \<in> set res \<and> traitT d = 1 \<and> traitF d = 0))"
proof -
  have h1: "distinct (map fst [(''James'', \<lparr>mother = None, father = None, trait = Some True\<rparr>)])"
    by simp
  have h2: "parents_resolve [(''James'', \<lparr>mother = None, father = None, trait = Some True\<rparr>)]"
    by (simp add: parents_resolve_def resolved_def)
  have h3: "(''James'', \<lparr>mother = None, father = None, trait = Some True\<rparr>)
      \<in> set [(''James'', \<lparr>mother = None, father = None, trait = Some True\<rparr>)]"
    by simp
  have h4: "trait \<lparr>mother = None, father = None, trait = Some True\<rparr> = Some True"
    by simp
  show ?thesis
    using observed_true_posterior [OF h1 h2 h3 h4] h1 h2 by blast
qed


subsection \<open>The posterior of a person without parents\<close>


lemma sum_list_concat_map:
  fixes F :: "'b \<Rightarrow> real"
  shows "(\<Sum>c\<leftarrow>concat (map h xs). F c) = (\<Sum>x\<leftarrow>xs. \<Sum>c\<leftarrow>h x. F c)"
  by (induction xs) simp_all

lemma gene_calls_sum:
  fixes F :: "call \<Rightarrow> real"
  assumes "distinct names"
  shows "(\<Sum>c\<leftarrow>gene_calls people names ht. F c) =
     (\<Sum>og\<in>Pow (set names). \<Sum>tg\<in>Pow (set names - og).
        F (og, tg, ht, joint_product people og tg ht))"
proof -
  have inner: "(\<Sum>c\<leftarrow>map (\<lambda>tg. (og, tg, ht, joint_product people og tg ht))
                    (powerset (filter (\<lambda>n. n \<notin> og) names)). F c) =
      (\<Sum>tg\<in>Pow (set names - og). F (og, tg, ht, joint_product people og tg ht))" for og
  proof -
    have d: "distinct (filter (\<lambda>n. n \<notin> og) names)" using assms by simp
    have s: "set (filter (\<lambda>n. n \<notin> og) names) = set names - og" by auto
    show ?thesis
      using sum_list_powerset [OF d, of "\<lambda>tg. F (og, tg, ht, joint_product people og tg ht)"]
      unfolding s by (simp add: comp_def)
  qed
  show ?thesis
    unfolding gene_calls_def
    by (simp only: sum_list_concat_map inner sum_list_powerset [OF assms])
qed


text \<open>
  The order in which the names are listed does not matter: two duplicate-free listings of the
  same set of names give the same result of the three loops.
\<close>

lemma listed_calls_sum:
  fixes F :: "call \<Rightarrow> real"
  assumes "distinct names"
  shows "(\<Sum>c\<leftarrow>concat (map (gene_calls people names)
                        (filter (consistent people) (powerset names))). F c) =
     (\<Sum>ht\<in>Pow (set names).
        if consistent people ht
        then (\<Sum>og\<in>Pow (set names). \<Sum>tg\<in>Pow (set names - og).
                F (og, tg, ht, joint_product people og tg ht))
        else 0)"
proof -
  have "(\<Sum>c\<leftarrow>concat (map (gene_calls people names)
                        (filter (consistent people) (powerset names))). F c) =
      (\<Sum>ht\<leftarrow>filter (consistent people) (powerset names).
         \<Sum>c\<leftarrow>gene_calls people names ht. F c)"
    by (rule sum_list_concat_map)
  also have "\<dots> = (\<Sum>ht\<leftarrow>powerset names.
         if consistent people ht then (\<Sum>c\<leftarrow>gene_calls people names ht. F c) else 0)"
    by (rule sum_list_map_filter')
  also have "\<dots> = (\<Sum>ht\<in>Pow (set names).
         if consistent people ht then (\<Sum>c\<leftarrow>gene_calls people names ht. F c) else 0)"
    by (rule sum_list_powerset [OF assms])
  finally show ?thesis
    by (simp add: gene_calls_sum [OF assms] cong: if_cong)
qed

lemma listing_order_irrelevant:
  assumes res: "parents_resolve people"
    and d1: "distinct names" and d2: "distinct names'" and same: "set names = set names'"
  shows "have_trait_loop people names (powerset names) probs =
         have_trait_loop people names' (powerset names') probs"
proof -
  have "add_weights (concat (map (gene_calls people names)
                        (filter (consistent people) (powerset names)))) =
        add_weights (concat (map (gene_calls people names')
                        (filter (consistent people) (powerset names'))))"
    unfolding add_weights_def listed_calls_sum [OF d1] listed_calls_sum [OF d2] same ..
  then show ?thesis
    by (simp add: have_trait_loop_resolved [OF res] updates_add_weights)
qed




































end
